theory Spec2Isabelle
  imports Complex_Main "HOL-Library.Sublist" "HOL-Library.Multiset"
    "HOL-Library.Code_Target_Nat"
begin

section \<open>Python string primitives used by the chat analyser\<close>

text \<open>
  A Python \<open>str\<close> is a sequence of Unicode code points.  The texts and queries that pass
  through the filter, the retriever and the prompt builder are sequences of code points
  (\<open>ustring\<close>, a code point is a natural number), and \<open>length\<close> counts code points.
  \<open>cps\<close> gives the code points of a literal.
\<close>

type_synonym ustring = "nat list"

definition cps :: "string \<Rightarrow> ustring" where
  "cps s = map of_char s"

text \<open>\<open>str.isspace\<close> on one code point: tab, line feed, vertical tab, form feed, carriage
  return, the separators 0x1C..0x1F, space, NEL (0x85), the no-break space (0xA0), and
  beyond Latin-1 the Ogham space mark, the spaces 0x2000..0x200A, the line and paragraph
  separators, the narrow no-break space, the medium mathematical space and the ideographic
  space.  \<open>str.split()\<close> and \<open>str.strip()\<close> use this set.\<close>

definition isspace :: "nat \<Rightarrow> bool" where
  "isspace n =
     ((9 \<le> n \<and> n \<le> 13) \<or> (28 \<le> n \<and> n \<le> 32) \<or> n = 133 \<or> n = 160
      \<or> n = 0x1680 \<or> (0x2000 \<le> n \<and> n \<le> 0x200A) \<or> n = 0x2028 \<or> n = 0x2029
      \<or> n = 0x202F \<or> n = 0x205F \<or> n = 0x3000)"

text \<open>
  \<open>str.lower\<close>.  CPython lowers a string code point by code point with the lower-case
  mapping of the Unicode database, except for the Greek capital sigma (0x3A3): it becomes
  the final sigma (0x3C2) when it ends a word and the small sigma (0x3C3) otherwise.  It
  ends a word when, skipping case-ignorable code points, the code point before it is cased
  and the code point after it is not cased or there is none; the context is read in the
  string as given.

  The mapping and the two properties are tabulated here for the code points 0..0xFF and
  for the Greek letters 0x391..0x3CB, two ranges that lowering does not leave.  On Latin-1
  the letters A..Z and the capitals 0xC0..0xDE (the multiplication sign 0xD7 apart) move up
  by 32; the Greek capitals 0x391..0x3AB move up by 32.  Cased are the Latin-1 letters,
  the ordinal indicators and the micro sign, and the Greek letters; case-ignorable are the
  apostrophe, the full stop, the colon, the circumflex, the grave accent, and the Latin-1
  diaeresis, soft hyphen, macron, acute accent, middle dot and cedilla.  Code points outside
  the two ranges are left as they are and count as neither cased nor case-ignorable.
\<close>

definition lower_cp :: "nat \<Rightarrow> nat" where
  "lower_cp n =
     (if (65 \<le> n \<and> n \<le> 90) \<or> (192 \<le> n \<and> n \<le> 222 \<and> n \<noteq> 215)
         \<or> (0x391 \<le> n \<and> n \<le> 0x3AB \<and> n \<noteq> 0x3A2)
      then n + 32 else n)"

definition cased :: "nat \<Rightarrow> bool" where
  "cased n =
     ((65 \<le> n \<and> n \<le> 90) \<or> (97 \<le> n \<and> n \<le> 122) \<or> n = 0xAA \<or> n = 0xB5 \<or> n = 0xBA
      \<or> (0xC0 \<le> n \<and> n \<le> 0xFF \<and> n \<noteq> 0xD7 \<and> n \<noteq> 0xF7)
      \<or> (0x391 \<le> n \<and> n \<le> 0x3CB \<and> n \<noteq> 0x3A2))"

definition case_ignorable :: "nat \<Rightarrow> bool" where
  "case_ignorable n =
     (n = 0x27 \<or> n = 0x2E \<or> n = 0x3A \<or> n = 0x5E \<or> n = 0x60 \<or> n = 0xA8 \<or> n = 0xAD
      \<or> n = 0xAF \<or> n = 0xB4 \<or> n = 0xB7 \<or> n = 0xB8)"

text \<open>\<open>before\<close> holds the code points that precede the sigma, nearest first; \<open>after\<close> holds
  those that follow it.\<close>

definition final_sigma :: "ustring \<Rightarrow> ustring \<Rightarrow> bool" where
  "final_sigma before after =
     ((case dropWhile case_ignorable before of [] \<Rightarrow> False | c # _ \<Rightarrow> cased c)
      \<and> (case dropWhile case_ignorable after of [] \<Rightarrow> True | c # _ \<Rightarrow> \<not> cased c))"

fun lower_scan :: "ustring \<Rightarrow> ustring \<Rightarrow> ustring" where
  "lower_scan before [] = []"
| "lower_scan before (c # cs) =
     (if c = 0x3A3 then (if final_sigma before cs then 0x3C2 else 0x3C3) else lower_cp c)
     # lower_scan (c # before) cs"

definition lower :: "ustring \<Rightarrow> ustring" where
  "lower s = lower_scan [] s"

text \<open>\<open>s.rstrip(chars)\<close>: every trailing character that occurs in \<open>chars\<close> is removed.\<close>

definition py_rstrip :: "ustring \<Rightarrow> ustring \<Rightarrow> ustring" where
  "py_rstrip chars s = rev (dropWhile (\<lambda>c. c \<in> set chars) (rev s))"

text \<open>\<open>s.strip()\<close>: leading and trailing whitespace is removed.\<close>

definition py_strip :: "ustring \<Rightarrow> ustring" where
  "py_strip s = rev (dropWhile isspace (rev (dropWhile isspace s)))"

text \<open>\<open>s.startswith(p)\<close> is \<^const>\<open>prefix\<close>; \<open>p in s\<close> on strings is the search for a
  contiguous occurrence.\<close>

fun contains :: "ustring \<Rightarrow> ustring \<Rightarrow> bool" where
  "contains p [] = (p = [])"
| "contains p (c # cs) = (prefix p (c # cs) \<or> contains p cs)"

text \<open>\<open>s.replace(old, new)\<close>: the occurrences of \<open>old\<close> are replaced from left to right,
  without overlap.  For an empty \<open>old\<close> Python puts \<open>new\<close> before every character and at
  the end.\<close>

function replace_scan :: "ustring \<Rightarrow> ustring \<Rightarrow> ustring \<Rightarrow> ustring" where
  "replace_scan old new [] = []"
| "replace_scan old new (c # cs) =
     (if old \<noteq> [] \<and> prefix old (c # cs)
      then new @ replace_scan old new (drop (length old) (c # cs))
      else c # replace_scan old new cs)"
  by pat_completeness auto
termination
  by (relation "measure (\<lambda>(old, new, s). length s)") (auto simp: neq_Nil_conv)

definition py_replace :: "ustring \<Rightarrow> ustring \<Rightarrow> ustring \<Rightarrow> ustring" where
  "py_replace old new s =
     (if old = [] then new @ concat (map (\<lambda>c. c # new) s) else replace_scan old new s)"

text \<open>\<open>s.split()\<close> with no argument: the maximal runs of non-whitespace characters, in
  order; empty strings are never produced.  \<open>cur\<close> is the token being read.\<close>

fun split_scan :: "ustring \<Rightarrow> ustring \<Rightarrow> ustring list" where
  "split_scan cur [] = (if cur = [] then [] else [cur])"
| "split_scan cur (c # cs) =
     (if isspace c then (if cur = [] then split_scan [] cs else cur # split_scan [] cs)
      else split_scan (cur @ [c]) cs)"

definition py_split :: "ustring \<Rightarrow> ustring list" where
  "py_split s = split_scan [] s"

section \<open>The informativeness filter (\<open>RAGSystem.is_informative_content\<close>)\<close>

definition reference_phrases :: "ustring list" where
  "reference_phrases = [cps ''like'', cps ''similar to'', cps ''same as'']"

definition query_lower_of :: "ustring \<Rightarrow> ustring" where
  "query_lower_of query = py_rstrip (cps ''?'') (lower query)"

text \<open>The text after the removal of the query, before \<open>strip()\<close>.\<close>

definition residual :: "ustring \<Rightarrow> ustring \<Rightarrow> ustring" where
  "residual text query = py_replace (query_lower_of query) [] (lower text)"

definition is_informative_content :: "ustring \<Rightarrow> ustring \<Rightarrow> bool" where
  "is_informative_content text query =
     (let text_lower = lower text;
          query_lower = py_rstrip (cps ''?'') (lower query);
          cleaned_text = py_strip (py_replace query_lower [] text_lower)
      in if length (py_split cleaned_text) < 5 then False
         else if prefix query_lower text_lower \<and> of_char CHR ''?'' \<in> set text then False
         else if list_ex (\<lambda>phrase. contains phrase cleaned_text
                                    \<and> length (py_split cleaned_text) < 10) reference_phrases
         then False
         else True)"

text \<open>The rules of the specification, section 4.3, read literally: rule 1 strips a single
  trailing question mark, rule 4 tests the original text.\<close>

definition strip_single_q :: "ustring \<Rightarrow> ustring" where
  "strip_single_q q = (if q \<noteq> [] \<and> last q = of_char CHR ''?'' then butlast q else q)"

definition is_informative_spec :: "ustring \<Rightarrow> ustring \<Rightarrow> bool" where
  "is_informative_spec text query =
     (let t = lower text;
          q = strip_single_q (lower query);
          r = py_replace q [] t
      in if length (py_split r) < 5 then False
         else if prefix q text \<and> of_char CHR ''?'' \<in> set text then False
         else if list_ex (\<lambda>p. contains p r) reference_phrases \<and> length (py_split r) < 10
         then False
         else True)"

definition is_informative_amended :: "ustring \<Rightarrow> ustring \<Rightarrow> bool" where
  "is_informative_amended text query =
     (let t = lower text;
          q = py_rstrip (cps ''?'') (lower query);
          r = py_replace q [] t
      in if length (py_split r) < 5 then False
         else if prefix q t \<and> of_char CHR ''?'' \<in> set text then False
         else if list_ex (\<lambda>p. contains p r) reference_phrases \<and> length (py_split r) < 10
         then False
         else True)"

definition bare_reference :: "ustring \<Rightarrow> bool" where
  "bare_reference r =
     (list_ex (\<lambda>p. contains p r) reference_phrases \<and> length (py_split r) < 10)"

section \<open>Retrieval, prompt building and the pipeline (\<open>RAGSystem\<close>)\<close>

text \<open>
  The embedding model, the vector store and the completion service are external.  They
  enter as the fields of an environment: each call either raises (\<open>Inl\<close>) or returns
  (\<open>Inr\<close>).  A distance is a Python float; the code only compares distances, and on
  finite floats the comparisons are those of the rationals they denote, so a distance is a
  \<open>rat\<close> here (a NaN is outside the model).
\<close>

datatype error = EmbedderError | StoreError | KeyError string | CompletionError

type_synonym vector = "rat list"

record doc =
  properties :: "string \<rightharpoonup> ustring"
  distance :: rat

record env =
  embedding_field :: string
  encode :: "ustring \<Rightarrow> error + vector"
  near_vector :: "vector \<Rightarrow> nat \<Rightarrow> error + doc list"
  complete :: "ustring \<Rightarrow> error + ustring"

record state =
  client_open :: bool
  stdout :: "ustring list"
  completion_calls :: "ustring list"

definition get_property :: "doc \<Rightarrow> string \<Rightarrow> error + ustring" where
  "get_property d field =
     (case properties d field of None \<Rightarrow> Inl (KeyError field) | Some v \<Rightarrow> Inr v)"

fun filter_docs :: "string \<Rightarrow> ustring \<Rightarrow> rat \<Rightarrow> doc list \<Rightarrow> error + doc list" where
  "filter_docs field query distance_threshold [] = Inr []"
| "filter_docs field query distance_threshold (d # ds) =
     (if distance d \<le> distance_threshold
      then (case get_property d field of
              Inl e \<Rightarrow> Inl e
            | Inr text \<Rightarrow>
                (case filter_docs field query distance_threshold ds of
                   Inl e \<Rightarrow> Inl e
                 | Inr rest \<Rightarrow>
                     Inr (if is_informative_content text query then d # rest else rest)))
      else filter_docs field query distance_threshold ds)"

text \<open>The condition of the list comprehension on one candidate that carries the field:
  within the threshold, and informative for the query.\<close>

definition passes_filter :: "string \<Rightarrow> ustring \<Rightarrow> rat \<Rightarrow> doc \<Rightarrow> bool" where
  "passes_filter field query distance_threshold d =
     (distance d \<le> distance_threshold
      \<and> (case properties d field of
            None \<Rightarrow> False
          | Some text \<Rightarrow> is_informative_content text query))"

text \<open>\<open>xs[:k]\<close>: the first \<open>k\<close> items, and for a negative \<open>k\<close> all but the last \<open>-k\<close>.\<close>

definition py_slice_to :: "int \<Rightarrow> 'a list \<Rightarrow> 'a list" where
  "py_slice_to k xs =
     (if 0 \<le> k then take (nat k) xs else take (length xs - nat (- k)) xs)"

definition initial_limit :: nat where
  "initial_limit = 100"

definition default_limit :: int where
  "default_limit = 7"

definition default_distance_threshold :: rat where
  "default_distance_threshold = 3 / 4"

definition retrieve_relevant_context ::
    "env \<Rightarrow> ustring \<Rightarrow> int \<Rightarrow> rat \<Rightarrow> error + doc list" where
  "retrieve_relevant_context env query limit distance_threshold =
     (case encode env query of
        Inl e \<Rightarrow> Inl e
      | Inr query_embedding \<Rightarrow>
          (case near_vector env query_embedding initial_limit of
             Inl e \<Rightarrow> Inl e
           | Inr objects \<Rightarrow>
               (case filter_docs (embedding_field env) query distance_threshold objects of
                  Inl e \<Rightarrow> Inl e
                | Inr filtered_results \<Rightarrow>
                    Inr (py_slice_to limit (sort_key distance filtered_results)))))"

fun collect_properties :: "string \<Rightarrow> doc list \<Rightarrow> error + ustring list" where
  "collect_properties field [] = Inr []"
| "collect_properties field (d # ds) =
     (case get_property d field of
        Inl e \<Rightarrow> Inl e
      | Inr c \<Rightarrow>
          (case collect_properties field ds of
             Inl e \<Rightarrow> Inl e
           | Inr cs \<Rightarrow> Inr (c # cs)))"

fun py_join :: "ustring \<Rightarrow> ustring list \<Rightarrow> ustring" where
  "py_join sep [] = []"
| "py_join sep [x] = x"
| "py_join sep (x # y # ys) = x @ sep @ py_join sep (y # ys)"

definition prompt_header :: ustring where
  "prompt_header =
     (cps ''Please answer the question based on the following context:\<newline>\<newline>Context:\<newline>'')"

definition prompt_question :: ustring where
  "prompt_question = (cps ''\<newline>\<newline>Question: '')"

definition prompt_footer :: ustring where
  "prompt_footer = (cps ''\<newline>\<newline>Please provide a detailed answer using only the information from the given context. The provided context is the Whatsapp chats between Shashank Hegde and Shashin Bhaskar. If the context doesn't contain enough information to answer the question, please state that explicitly.'')"

definition generate_prompt :: "env \<Rightarrow> ustring \<Rightarrow> doc list \<Rightarrow> error + ustring" where
  "generate_prompt env query context =
     (let sorted_contexts = sort_key distance context
      in case collect_properties (embedding_field env) sorted_contexts of
           Inl e \<Rightarrow> Inl e
         | Inr contents \<Rightarrow>
             (let context_str = py_join (cps ''\<newline>\<newline>'') contents
              in Inr (prompt_header @ context_str @ prompt_question @ query @ prompt_footer)))"

definition get_completion :: "env \<Rightarrow> ustring \<Rightarrow> state \<Rightarrow> (error + ustring) \<times> state" where
  "get_completion env prompt s =
     (complete env prompt, s\<lparr>completion_calls := completion_calls s @ [prompt]\<rparr>)"

definition no_information_message :: ustring where
  "no_information_message =
     (cps ''I couldn't find any relevant information to answer your question.'')"

definition query_try :: "env \<Rightarrow> ustring \<Rightarrow> state \<Rightarrow> (error + ustring) \<times> state" where
  "query_try env user_query s =
     (case retrieve_relevant_context env user_query default_limit default_distance_threshold of
        Inl e \<Rightarrow> (Inl e, s)
      | Inr relevant_docs \<Rightarrow>
          if List.null relevant_docs then (Inr no_information_message, s)
          else (case generate_prompt env user_query relevant_docs of
                  Inl e \<Rightarrow> (Inl e, s)
                | Inr prompt \<Rightarrow>
                    get_completion env prompt (s\<lparr>stdout := stdout s @ [(cps ''Prompt '') @ prompt]\<rparr>)))"

definition close_client :: "state \<Rightarrow> state" where
  "close_client s = s\<lparr>client_open := False\<rparr>"

definition query :: "env \<Rightarrow> ustring \<Rightarrow> state \<Rightarrow> (error + ustring) \<times> state" where
  "query env user_query s =
     (let (result, s') = query_try env user_query s in (result, close_client s'))"

text \<open>A concrete store of four messages, for the evaluation of the pipeline.\<close>

definition doc_of :: "ustring \<Rightarrow> rat \<Rightarrow> doc" where
  "doc_of c d = \<lparr>properties = [''content'' \<mapsto> c], distance = d\<rparr>"

definition store0 :: "doc list" where
  "store0 = [doc_of (cps ''it rained heavily all night and flooded the street'') (1/2),
             doc_of (cps ''yes'') (1/10),
             doc_of (cps ''the river rose over the bridge before dawn today'') (1/5),
             doc_of (cps ''nobody could drive to work until noon that day'') (9/10)]"

definition env0 :: env where
  "env0 = \<lparr>embedding_field = ''content'',
           encode = (\<lambda>q. Inr []),
           near_vector = (\<lambda>v n. Inr store0),
           complete = (\<lambda>p. Inr (cps ''It rained.''))\<rparr>"

definition env_sparse :: env where
  "env_sparse = env0\<lparr>near_vector :=
       (\<lambda>v n. Inr [doc_of (cps ''yes'') (1/10),
                    doc_of (cps ''nobody could drive to work until noon that day'') (9/10)])\<rparr>"

definition env_failing :: env where
  "env_failing = env0\<lparr>complete := (\<lambda>p. Inl CompletionError)\<rparr>"

definition ctx_unsorted :: "doc list" where
  "ctx_unsorted = [doc_of (cps ''it rained all night'') (1/2), doc_of (cps ''the street flooded'') (1/5)]"

definition ctx_sorted :: "doc list" where
  "ctx_sorted = [doc_of (cps ''the street flooded'') (1/5), doc_of (cps ''it rained all night'') (1/2)]"

section \<open>The message parser (\<open>WhatsAppChatIndexer.parse_message\<close>)\<close>

text \<open>
  The lines of a chat export are modelled over the code points 0..255, one \<open>char\<close> per code
  point.  On these, whitespace (\<open>str.strip()\<close> and the class \<open>\s\<close>) is \<^const>\<open>isspace\<close> of
  the code point.
\<close>

definition isspace_char :: "char \<Rightarrow> bool" where
  "isspace_char c = isspace (of_char c)"


text \<open>
  The regular expressions of the parser are run by a backtracking matcher.  \<open>rx_match r s\<close>
  lists, in the order in which Python's \<open>re\<close> tries them, the remainders of \<open>s\<close> after
  each way of matching \<open>r\<close> at the start of \<open>s\<close>; the first entry is the match that \<open>re\<close>
  reports.  \<open>Rep lo hi P\<close> is the greedy repetition \<open>{lo,hi}\<close> of a character class
  (\<open>hi = None\<close> for \<open>+\<close>).
\<close>

datatype rx = Eps | Cls "char \<Rightarrow> bool" | Seq rx rx | Alt rx rx | Rep nat "nat option" "char \<Rightarrow> bool"

definition rep_class :: "nat \<Rightarrow> nat option \<Rightarrow> (char \<Rightarrow> bool) \<Rightarrow> string \<Rightarrow> string list" where
  "rep_class lo hi P s =
     (let n = length (takeWhile P s);
          m = (case hi of None \<Rightarrow> n | Some h \<Rightarrow> min h n)
      in map (\<lambda>k. drop k s) (rev [lo..<Suc m]))"

fun rx_match :: "rx \<Rightarrow> string \<Rightarrow> string list" where
  "rx_match Eps s = [s]"
| "rx_match (Cls P) s = (case s of [] \<Rightarrow> [] | c # cs \<Rightarrow> if P c then [cs] else [])"
| "rx_match (Seq a b) s = concat (map (rx_match b) (rx_match a s))"
| "rx_match (Alt a b) s = rx_match a s @ rx_match b s"
| "rx_match (Rep lo hi P) s = rep_class lo hi P s"

definition capture :: "rx \<Rightarrow> string \<Rightarrow> (string \<times> string) list" where
  "capture r s = map (\<lambda>rest. (take (length s - length rest) s, rest)) (rx_match r s)"

definition chr :: "char \<Rightarrow> rx" where
  "chr c = Cls (\<lambda>x. x = c)"


text \<open>\<open>\d\<close> on code points below 256 is the class of the ten ASCII digits.\<close>

definition re_digit :: "char \<Rightarrow> bool" where
  "re_digit c = (48 \<le> (of_char c :: nat) \<and> (of_char c :: nat) \<le> 57)"

text \<open>The pattern of \<open>parse_message\<close>, group by group:
  \<^verbatim>\<open>(\d{1,2}/\d{1,2}/\d{2}),\s(\d{1,2}:\d{2})\s-\s([^:]+):\s(.+)\<close>.\<close>

definition date_rx :: rx where
  "date_rx = Seq (Rep 1 (Some 2) re_digit) (Seq (chr CHR ''/'')
            (Seq (Rep 1 (Some 2) re_digit) (Seq (chr CHR ''/'') (Rep 2 (Some 2) re_digit))))"

definition time_rx :: rx where
  "time_rx = Seq (Rep 1 (Some 2) re_digit) (Seq (chr CHR '':'') (Rep 2 (Some 2) re_digit))"

definition sender_rx :: rx where
  "sender_rx = Rep 1 None (\<lambda>c. c \<noteq> CHR '':'')"

definition content_rx :: rx where
  "content_rx = Rep 1 None (\<lambda>c. c \<noteq> CHR ''\<newline>'')"

definition sep_comma_rx :: rx where
  "sep_comma_rx = Seq (chr CHR '','') (Cls isspace_char)"

definition sep_dash_rx :: rx where
  "sep_dash_rx = Seq (Cls isspace_char) (Seq (chr CHR ''-'') (Cls isspace_char))"

definition sep_colon_rx :: rx where
  "sep_colon_rx = Seq (chr CHR '':'') (Cls isspace_char)"

definition pattern_matches :: "string \<Rightarrow> (string \<times> string \<times> string \<times> string) list" where
  "pattern_matches line =
     [(date, time, sender, content).
        (date, r1) \<leftarrow> capture date_rx line,
        r2 \<leftarrow> rx_match sep_comma_rx r1,
        (time, r3) \<leftarrow> capture time_rx r2,
        r4 \<leftarrow> rx_match sep_dash_rx r3,
        (sender, r5) \<leftarrow> capture sender_rx r4,
        r6 \<leftarrow> rx_match sep_colon_rx r5,
        (content, r7) \<leftarrow> capture content_rx r6]"


fun lang :: "rx \<Rightarrow> string set" where
  "lang Eps = {[]}"
| "lang (Cls P) = {[c] | c. P c}"
| "lang (Seq a b) = {u @ v | u v. u \<in> lang a \<and> v \<in> lang b}"
| "lang (Alt a b) = lang a \<union> lang b"
| "lang (Rep lo hi P) =
     {w. lo \<le> length w \<and> (case hi of None \<Rightarrow> True | Some h \<Rightarrow> length w \<le> h) \<and> list_all P w}"


text \<open>\<open>re.match(pattern, line)\<close>: a match at the start of the line, not necessarily up to its
  end; \<open>match.groups()\<close> of the first match.\<close>

definition re_match :: "string \<Rightarrow> (string \<times> string \<times> string \<times> string) option" where
  "re_match line = (case pattern_matches line of [] \<Rightarrow> None | g # _ \<Rightarrow> Some g)"

















text \<open>\<open>WhatsAppChatIndexer.parse_message\<close>.  \<open>model_encode\<close> is the embedding model; the
  \<open>except Exception\<close> clause turns a failure of \<open>strptime\<close> or of the model into \<open>None\<close>.
  The two lines printed in that clause are not part of the model.\<close>

record message =
  timestamp :: string
  sender :: string
  content :: string
  embedding :: vector


section \<open>Properties of the string primitives\<close>

lemma qmark_code: "(of_char CHR ''?'' :: nat) = 63"
  by simp

lemma lower_cp_idem: "lower_cp (lower_cp n) = lower_cp n"
  by (auto simp: lower_cp_def)

lemma lower_cp_sigma: "lower_cp n = n \<Longrightarrow> n \<noteq> 0x3A3"
  by (auto simp: lower_cp_def)

lemma lower_cp_qmark: "lower_cp n = 63 \<longleftrightarrow> n = 63"
  by (auto simp: lower_cp_def)

text \<open>What \<open>lower\<close> returns is fixed by the lower-case mapping and holds no capital sigma,
  and a string of such code points is left as it is.\<close>

lemma lower_scan_lowered: "\<forall>x\<in>set (lower_scan before s). lower_cp x = x"
proof (induction s arbitrary: before)
  case Nil
  then show ?case by simp
next
  case (Cons c cs)
  have "lower_cp (if c = 0x3A3 then (if final_sigma before cs then 0x3C2 else 0x3C3)
                  else lower_cp c)
        = (if c = 0x3A3 then (if final_sigma before cs then 0x3C2 else 0x3C3) else lower_cp c)"
    by (simp add: lower_cp_idem) (simp add: lower_cp_def)
  with Cons show ?case by simp
qed

lemma lower_scan_fixed: "\<forall>x\<in>set s. lower_cp x = x \<Longrightarrow> lower_scan before s = s"
proof (induction s arbitrary: before)
  case Nil
  then show ?case by simp
next
  case (Cons c cs)
  then have "lower_cp c = c" by simp
  with lower_cp_sigma[of c] have "c \<noteq> 0x3A3" by simp
  with Cons show ?case by simp
qed

lemma lower_idem: "lower (lower s) = lower s"
  unfolding lower_def by (rule lower_scan_fixed) (rule lower_scan_lowered)

lemma qmark_in_lower_scan: "63 \<in> set (lower_scan before s) \<longleftrightarrow> 63 \<in> set s"
  by (induction s arbitrary: before) (auto simp: lower_cp_qmark)

lemma qmark_in_lower: "63 \<in> set (lower s) \<longleftrightarrow> 63 \<in> set s"
  by (simp add: lower_def qmark_in_lower_scan)

text \<open>Only the capital sigma is lowered by its context: a prefix without it is lowered on
  its own.\<close>

lemma lower_scan_append:
  "0x3A3 \<notin> set q \<Longrightarrow>
     lower_scan before (q @ r) = lower_scan before q @ lower_scan (rev q @ before) r"
  by (induction q arbitrary: before) simp_all

lemma prefix_lower:
  assumes "prefix q t" and "0x3A3 \<notin> set q"
  shows "prefix (lower q) (lower t)"
proof -
  from assms(1) obtain r where "t = q @ r" by (auto simp: prefix_def)
  with lower_scan_append[OF assms(2), of "[]" r] show ?thesis
    unfolding lower_def by simp
qed

lemma contains_sublist: "contains p s = sublist p s"
  by (induction s) (simp_all add: sublist_Cons_right)

lemma split_scan_spaces:
  "\<forall>c\<in>set ws. isspace c \<Longrightarrow> split_scan cur ws = (if cur = [] then [] else [cur])"
  by (induction ws arbitrary: cur) auto

lemma split_scan_append_spaces:
  "\<forall>c\<in>set ws. isspace c \<Longrightarrow> split_scan cur (s @ ws) = split_scan cur s"
  by (induction s arbitrary: cur) (simp_all add: split_scan_spaces)

lemma split_scan_dropWhile: "split_scan [] (dropWhile isspace s) = split_scan [] s"
  by (induction s) simp_all

lemma rstrip_decomp: "s = rev (dropWhile P (rev s)) @ rev (takeWhile P (rev s))"
  by (metis rev_append rev_rev_ident takeWhile_dropWhile_id)

lemma split_scan_rstrip: "split_scan cur (rev (dropWhile isspace (rev s))) = split_scan cur s"
proof -
  have "\<forall>c\<in>set (rev (takeWhile isspace (rev s))). isspace c"
    by (auto dest: set_takeWhileD)
  from split_scan_append_spaces[OF this, of cur "rev (dropWhile isspace (rev s))"]
  show ?thesis using rstrip_decomp[of s isspace] by simp
qed

lemma py_split_strip: "py_split (py_strip s) = py_split s"
  by (simp add: py_split_def py_strip_def split_scan_rstrip split_scan_dropWhile)

lemma sublist_dropWhile:
  assumes "p \<noteq> []" "\<not> P (hd p)"
  shows "sublist p (dropWhile P s) = sublist p s"
  using assms
  by (induction s) (auto simp: sublist_Cons_right prefix_Cons neq_Nil_conv)

lemma sublist_strip:
  assumes "p \<noteq> []" "\<not> isspace (hd p)" "\<not> isspace (last p)"
  shows "sublist p (py_strip s) = sublist p s"
proof -
  have "sublist p (py_strip s) = sublist (rev p) (dropWhile isspace (rev (dropWhile isspace s)))"
    unfolding py_strip_def by (simp add: sublist_rev_right)
  also have "\<dots> = sublist (rev p) (rev (dropWhile isspace s))"
    using assms by (intro sublist_dropWhile) (simp_all add: hd_rev)
  also have "\<dots> = sublist p (dropWhile isspace s)" by simp
  also have "\<dots> = sublist p s" using assms by (intro sublist_dropWhile)
  finally show ?thesis .
qed

lemma reference_phrase_strip:
  "list_ex (\<lambda>p. contains p (py_strip s)) reference_phrases
     = list_ex (\<lambda>p. contains p s) reference_phrases"
  by (simp add: reference_phrases_def contains_sublist sublist_strip isspace_def cps_def)

lemma list_ex_conj_const: "list_ex (\<lambda>p. P p \<and> b) ps = (list_ex P ps \<and> b)"
  by (induction ps) auto

lemma is_informative_content_unfold:
  "is_informative_content text qry =
     (\<not> length (py_split (residual text qry)) < 5
      \<and> \<not> (prefix (query_lower_of qry) (lower text) \<and> of_char CHR ''?'' \<in> set text)
      \<and> \<not> bare_reference (residual text qry))"
  by (simp add: is_informative_content_def residual_def query_lower_of_def bare_reference_def
        Let_def py_split_strip reference_phrase_strip list_ex_conj_const)

lemma prefix_py_rstrip: "prefix (py_rstrip chars s) s"
  unfolding py_rstrip_def using rstrip_decomp[of s "\<lambda>c. c \<in> set chars"]
  by (metis prefixI)

lemma prefix_normalised:
  assumes "prefix qry text" and "0x3A3 \<notin> set qry"
  shows "prefix (query_lower_of qry) (lower text)"
proof -
  have "prefix (lower qry) (lower text)"
    using assms by (rule prefix_lower)
  with prefix_py_rstrip[of "cps ''?''" "lower qry"] show ?thesis
    unfolding query_lower_of_def by (rule prefix_order.trans)
qed

lemma informative_rain:
  "is_informative_content (cps ''it rained heavily all night and flooded the street'')
     (cps ''is it raining'')"
  by code_simp

lemma informative_river:
  "is_informative_content (cps ''the river rose over the bridge before dawn today'')
     (cps ''is it raining'')"
  by code_simp

lemma uninformative_yes: "\<not> is_informative_content (cps ''yes'') (cps ''is it raining'')"
  by code_simp

section \<open>The informativeness filter\<close>

text \<open>
  C2 (as stated): \<open>is_informative\<close> is the predicate of the rules of section 4.3, where rule 1
  strips exactly one trailing question mark from the query.  The code differs from that
  reading at two places.  For the query \<open>rain??\<close> the code removes both question marks, so
  the text \<open>rain a b c d\<close> keeps four tokens and is rejected, while the rules with a single
  strip leave it whole and accept it.  For the text \<open>Snow? a b c d e f\<close> and the query
  \<open>snow\<close> the code tests the prefix on the lower-cased text and rejects, while rule 4 on the
  original text accepts.
\<close>

theorem single_qmark_rules_counterexample:
  "is_informative_content (cps ''rain a b c d'') (cps ''rain??'')
     \<noteq> is_informative_spec (cps ''rain a b c d'') (cps ''rain??'')
   \<and> is_informative_content (cps ''Snow? a b c d e f'') (cps ''snow'')
     \<noteq> is_informative_spec (cps ''Snow? a b c d e f'') (cps ''snow'')"
  by code_simp

text \<open>
  C2 (amended): for every text and query, \<open>is_informative\<close> is the predicate of the rules
  applied in order, where rule 1 lower-cases both strings and strips every trailing question
  mark from the query, rule 2 removes every occurrence of that query from the lower-cased
  text, and rule 4 asks whether the lower-cased text starts with that query and the original
  text contains a question mark.  The \<open>strip()\<close> of the code changes neither the token count
  nor the occurrence of a reference phrase.
\<close>

theorem is_informative_content_rules:
  "is_informative_content text qry = is_informative_amended text qry"
  by (simp add: is_informative_content_def is_informative_amended_def
        Let_def py_split_strip reference_phrase_strip list_ex_conj_const)

text \<open>
  C5: when the residual (the lower-cased text without the occurrences of the lower-cased
  query stripped of its trailing question marks) has fewer than five whitespace-separated
  tokens, the filter rejects.
\<close>

theorem short_residual_rejected:
  assumes "length (py_split (residual text qry)) < 5"
  shows "\<not> is_informative_content text qry"
  using assms by (simp add: is_informative_content_unfold)

text \<open>The example of the specification: \<open>yes\<close> against \<open>is it raining\<close> is rejected.\<close>

theorem short_residual_rejected_witness:
  "length (py_split (residual (cps ''yes'') (cps ''is it raining''))) < 5
   \<and> \<not> is_informative_content (cps ''yes'') (cps ''is it raining'')"
proof -
  have h: "length (py_split (residual (cps ''yes'') (cps ''is it raining''))) < 5" by code_simp
  from h short_residual_rejected[OF h] show ?thesis by (rule conjI)
qed

text \<open>
  C6 (as stated): a text that starts with the query and contains a question mark is
  rejected.  The code makes the prefix test on the lower-cased strings, and \<open>str.lower\<close>
  lowers a Greek capital sigma by its context.  The query of the two letters capital alpha,
  capital sigma is lowered to alpha, final sigma; in the text that continues with a third
  letter the same sigma is lowered to the small sigma.  So the text below starts with the
  query and contains a question mark, the lower-cased text does not start with the
  lower-cased query, seven tokens remain, and the code accepts the text.
\<close>

theorem restated_question_sigma_counterexample:
  "prefix [0x391, 0x3A3] ([0x391, 0x3A3, 0x391] @ cps ''? b c d e f g'')
   \<and> of_char CHR ''?'' \<in> set ([0x391, 0x3A3, 0x391] @ cps ''? b c d e f g'')
   \<and> is_informative_content ([0x391, 0x3A3, 0x391] @ cps ''? b c d e f g'') [0x391, 0x3A3]"
  by code_simp

text \<open>
  C6 (amended): a text that contains a question mark and whose lower-cased form starts with
  the normalised query (lower-cased, trailing question marks removed) is rejected.  This
  is the case in particular when the text as given starts with the query as given and the
  query holds no Greek capital sigma.
\<close>

theorem restated_question_rejected:
  assumes "(prefix qry text \<and> 0x3A3 \<notin> set qry) \<or> prefix (query_lower_of qry) (lower text)"
      and "of_char CHR ''?'' \<in> set text"
  shows "\<not> is_informative_content text qry"
  using assms prefix_normalised by (auto simp: is_informative_content_unfold)

text \<open>The example of the specification: \<open>is it raining outside today?\<close> is rejected.\<close>

theorem restated_question_rejected_witness:
  "((prefix (cps ''is it raining'') (cps ''is it raining outside today?'')
       \<and> 0x3A3 \<notin> set (cps ''is it raining''))
      \<or> prefix (query_lower_of (cps ''is it raining''))
           (lower (cps ''is it raining outside today?'')))
   \<and> of_char CHR ''?'' \<in> set (cps ''is it raining outside today?'')
   \<and> \<not> is_informative_content (cps ''is it raining outside today?'') (cps ''is it raining'')"
proof -
  have h1: "(prefix (cps ''is it raining'') (cps ''is it raining outside today?'')
       \<and> 0x3A3 \<notin> set (cps ''is it raining''))
      \<or> prefix (query_lower_of (cps ''is it raining''))
           (lower (cps ''is it raining outside today?''))"
    by (simp add: cps_def)
  have h2: "of_char CHR ''?'' \<in> set (cps ''is it raining outside today?'')"
    by (simp add: cps_def)
  from h1 h2 restated_question_rejected[OF h1 h2] show ?thesis by (intro conjI)
qed

text \<open>
  C7 (as stated): a text whose residual has at least five tokens, that does not both start
  with the query and contain a question mark, and that is no bare reference, is accepted.
  With the prefix test read on the strings as given this fails: \<open>RAIN? a b c d e f\<close> does not
  start with \<open>rain\<close>, yet the code compares lower-cased strings and rejects it.
\<close>

theorem accept_original_prefix_counterexample:
  "5 \<le> length (py_split (residual (cps ''RAIN? a b c d e f'') (cps ''rain'')))
   \<and> \<not> (prefix (cps ''rain'') (cps ''RAIN? a b c d e f'') \<and> of_char CHR ''?'' \<in> set (cps ''RAIN? a b c d e f''))
   \<and> \<not> bare_reference (residual (cps ''RAIN? a b c d e f'') (cps ''rain''))
   \<and> \<not> is_informative_content (cps ''RAIN? a b c d e f'') (cps ''rain'')"
  by code_simp

text \<open>
  C7 (amended): a text whose residual has at least five tokens, for which it is not the case
  that the lower-cased text starts with the normalised query (lower-cased, trailing question
  marks removed) while the original text contains a question mark, and whose residual is
  no bare reference (a reference phrase with fewer than ten tokens), is accepted.
\<close>

theorem is_informative_content_accepts:
  assumes "5 \<le> length (py_split (residual text qry))"
      and "\<not> (prefix (query_lower_of qry) (lower text) \<and> of_char CHR ''?'' \<in> set text)"
      and "\<not> bare_reference (residual text qry)"
  shows "is_informative_content text qry"
  using assms by (simp add: is_informative_content_unfold)

text \<open>The example of the specification: the answer about the flooded street is accepted.\<close>

theorem is_informative_content_accepts_witness:
  "5 \<le> length (py_split (residual (cps ''it rained heavily all night and flooded the street'')
                              (cps ''is it raining'')))
   \<and> \<not> (prefix (query_lower_of (cps ''is it raining''))
                (lower (cps ''it rained heavily all night and flooded the street''))
          \<and> of_char CHR ''?'' \<in> set (cps ''it rained heavily all night and flooded the street''))
   \<and> \<not> bare_reference (residual (cps ''it rained heavily all night and flooded the street'')
                                 (cps ''is it raining''))
   \<and> is_informative_content (cps ''it rained heavily all night and flooded the street'')
        (cps ''is it raining'')"
proof -
  let ?t = "(cps ''it rained heavily all night and flooded the street'')"
  let ?q = "(cps ''is it raining'')"
  have h1: "5 \<le> length (py_split (residual ?t ?q))" by code_simp
  have h2: "\<not> (prefix (query_lower_of ?q) (lower ?t) \<and> of_char CHR ''?'' \<in> set ?t)"
    by (simp add: cps_def)
  have h3: "\<not> bare_reference (residual ?t ?q)" by code_simp
  from h1 h2 h3 is_informative_content_accepts[OF h1 h2 h3] show ?thesis by (intro conjI)
qed

text \<open>
  C10: lower-casing both arguments leaves the verdict of the filter unchanged.
\<close>

theorem is_informative_content_lower:
  "is_informative_content (lower text) (lower qry) = is_informative_content text qry"
  by (simp add: is_informative_content_def Let_def lower_idem qmark_in_lower)
section \<open>The retriever\<close>

lemma filter_docs_Inr:
  "filter_docs field qry thr ds = Inr res \<Longrightarrow> res = filter (passes_filter field qry thr) ds"
proof (induction ds arbitrary: res)
  case Nil
  then show ?case by simp
next
  case (Cons d ds)
  then show ?case
    by (auto simp: get_property_def passes_filter_def
             split: if_splits option.splits sum.splits)
qed

lemma filter_docs_within:
  assumes "filter_docs field qry thr ds = Inr res" and "d \<in> set res"
  shows "distance d \<le> thr" and "d \<in> set ds"
  using filter_docs_Inr[OF assms(1)] assms(2) by (auto simp: passes_filter_def)

lemma set_py_slice_to: "set (py_slice_to k xs) \<subseteq> set xs"
  by (auto simp: py_slice_to_def dest: in_set_takeD)

lemma sorted_py_slice_to: "sorted (map f xs) \<Longrightarrow> sorted (map f (py_slice_to k xs))"
  by (simp add: py_slice_to_def take_map[symmetric] sorted_wrt_take del: take_map)

lemma length_py_slice_to: "0 \<le> k \<Longrightarrow> int (length (py_slice_to k xs)) \<le> k"
  by (simp add: py_slice_to_def)

lemma length_py_slice_to_neg:
  "k < 0 \<Longrightarrow> length (py_slice_to k xs) = length xs - nat (- k)"
  by (simp add: py_slice_to_def)

lemma retrieve_Inr:
  assumes "retrieve_relevant_context env qry limit thr = Inr res"
  obtains v objects filtered where
    "encode env qry = Inr v" "near_vector env v initial_limit = Inr objects"
    "filter_docs (embedding_field env) qry thr objects = Inr filtered"
    "res = py_slice_to limit (sort_key distance filtered)"
  using assms unfolding retrieve_relevant_context_def
  by (auto split: sum.splits)

text \<open>The retriever returns whenever the model and the store return and every candidate
  carries the content field; what it returns carries the content field.\<close>

lemma filter_docs_returns:
  "\<forall>d\<in>set ds. properties d field \<noteq> None \<Longrightarrow> \<exists>res. filter_docs field qry thr ds = Inr res"
  by (induction ds) (auto simp: get_property_def)

lemma retrieve_returns:
  assumes "encode env qry = Inr v" and "near_vector env v initial_limit = Inr objects"
      and "\<forall>d\<in>set objects. properties d (embedding_field env) \<noteq> None"
  shows "\<exists>res. retrieve_relevant_context env qry limit thr = Inr res"
  using assms filter_docs_returns[OF assms(3), of qry thr]
  by (auto simp: retrieve_relevant_context_def)

lemma retrieved_have_content:
  assumes "retrieve_relevant_context env qry limit thr = Inr res"
  shows "\<forall>d\<in>set res. properties d (embedding_field env) \<noteq> None"
proof -
  from assms obtain v objects filtered where
    f: "filter_docs (embedding_field env) qry thr objects = Inr filtered"
    and r: "res = py_slice_to limit (sort_key distance filtered)"
    by (rule retrieve_Inr)
  from filter_docs_Inr[OF f]
  have "\<forall>d\<in>set filtered. properties d (embedding_field env) \<noteq> None"
    by (auto simp: passes_filter_def split: option.splits)
  with set_py_slice_to[of limit "sort_key distance filtered"] show ?thesis
    unfolding r by auto
qed

lemma retrieve_env0_two:
  "retrieve_relevant_context env0 (cps ''is it raining'') 2 (3/4)
   = Inr [doc_of (cps ''the river rose over the bridge before dawn today'') (1/5),
          doc_of (cps ''it rained heavily all night and flooded the street'') (1/2)]"
  by (simp add: retrieve_relevant_context_def env0_def store0_def get_property_def doc_of_def
        py_slice_to_def informative_rain informative_river uninformative_yes)

lemma retrieve_env0_negative:
  "retrieve_relevant_context env0 (cps ''is it raining'') (- 1) (3/4)
   = Inr [doc_of (cps ''the river rose over the bridge before dawn today'') (1/5)]"
  by (simp add: retrieve_relevant_context_def env0_def store0_def get_property_def doc_of_def
        py_slice_to_def informative_rain informative_river uninformative_yes)

lemma retrieve_env_sparse:
  "retrieve_relevant_context env_sparse (cps ''is it raining'') default_limit
     default_distance_threshold = Inr []"
  by (simp add: retrieve_relevant_context_def env_sparse_def env0_def get_property_def
        doc_of_def py_slice_to_def default_limit_def default_distance_threshold_def
        uninformative_yes)

text \<open>
  C1 (as stated): for every limit the returned list has at most \<open>limit\<close> items.  The code
  truncates with the slice \<open>[:limit]\<close>, which for a negative limit drops that many items
  from the end: with two candidates left after filtering and \<open>limit = -1\<close> it returns one
  item, and one is more than \<open>-1\<close>.
\<close>

theorem retrieve_negative_limit_counterexample:
  "retrieve_relevant_context env0 (cps ''is it raining'') (- 1) (3/4)
     = Inr [doc_of (cps ''the river rose over the bridge before dawn today'') (1/5)]
   \<and> \<not> int (length [doc_of (cps ''the river rose over the bridge before dawn today'') (1/5)]) \<le> - 1"
  using retrieve_env0_negative by simp

text \<open>
  C1 (amended): whenever the retriever returns a list, the embedding model and the store
  have returned, and the list is the slice \<open>[:limit]\<close> of the store's candidates that pass
  the filter (distance at most the threshold, and informative), sorted by distance: the
  candidates beyond the threshold are discarded before sorting and truncation.  The list is
  sorted by non-decreasing distance, every item's distance is at most the threshold, and
  for every limit that is not negative its length is at most the limit.
\<close>

theorem retrieve_relevant_context_sorted_bounded:
  assumes "retrieve_relevant_context env qry limit distance_threshold = Inr res"
  shows "(\<exists>v objects. encode env qry = Inr v \<and> near_vector env v initial_limit = Inr objects
           \<and> res = py_slice_to limit (sort_key distance
                     (filter (passes_filter (embedding_field env) qry distance_threshold)
                        objects)))
    \<and> sorted (map distance res)
    \<and> (\<forall>d\<in>set res. distance d \<le> distance_threshold)
    \<and> (0 \<le> limit \<longrightarrow> int (length res) \<le> limit)"
proof -
  from assms obtain v objects filtered where
    e: "encode env qry = Inr v" and n: "near_vector env v initial_limit = Inr objects"
    and f: "filter_docs (embedding_field env) qry distance_threshold objects = Inr filtered"
    and r: "res = py_slice_to limit (sort_key distance filtered)"
    by (rule retrieve_Inr)
  have fl: "filtered = filter (passes_filter (embedding_field env) qry distance_threshold) objects"
    using f by (rule filter_docs_Inr)
  have kept: "\<forall>d\<in>set filtered. distance d \<le> distance_threshold"
    using filter_docs_within(1)[OF f] by blast
  have 0: "\<exists>v objects. encode env qry = Inr v \<and> near_vector env v initial_limit = Inr objects
           \<and> res = py_slice_to limit (sort_key distance
                     (filter (passes_filter (embedding_field env) qry distance_threshold)
                        objects))"
    using e n r unfolding fl by (intro exI conjI)
  have 1: "sorted (map distance res)"
    unfolding r by (rule sorted_py_slice_to) simp
  have 2: "\<forall>d\<in>set res. distance d \<le> distance_threshold"
    using kept set_py_slice_to[of limit "sort_key distance filtered"] unfolding r by auto
  have 3: "0 \<le> limit \<longrightarrow> int (length res) \<le> limit"
    unfolding r by (simp add: length_py_slice_to)
  from 0 1 2 3 show ?thesis by (intro conjI)
qed

text \<open>Four candidates, one beyond the threshold and one uninformative; two are returned,
  nearest first.\<close>

theorem retrieve_relevant_context_sorted_bounded_witness:
  "retrieve_relevant_context env0 (cps ''is it raining'') 2 (3/4)
     = Inr [doc_of (cps ''the river rose over the bridge before dawn today'') (1/5),
            doc_of (cps ''it rained heavily all night and flooded the street'') (1/2)]
   \<and> encode env0 (cps ''is it raining'') = Inr []
   \<and> near_vector env0 [] initial_limit = Inr store0
   \<and> [doc_of (cps ''the river rose over the bridge before dawn today'') (1/5),
       doc_of (cps ''it rained heavily all night and flooded the street'') (1/2)]
     = py_slice_to 2 (sort_key distance
         (filter (passes_filter (embedding_field env0) (cps ''is it raining'') (3/4)) store0))
   \<and> sorted (map distance
        [doc_of (cps ''the river rose over the bridge before dawn today'') (1/5),
         doc_of (cps ''it rained heavily all night and flooded the street'') (1/2)])
   \<and> list_all (\<lambda>d. distance d \<le> 3/4)
        [doc_of (cps ''the river rose over the bridge before dawn today'') (1/5),
         doc_of (cps ''it rained heavily all night and flooded the street'') (1/2)]
   \<and> (0::int) \<le> 2
   \<and> int (length [doc_of (cps ''the river rose over the bridge before dawn today'') (1/5),
                  doc_of (cps ''it rained heavily all night and flooded the street'') (1/2)]) \<le> 2"
proof -
  let ?res = "[doc_of (cps ''the river rose over the bridge before dawn today'') (1/5),
               doc_of (cps ''it rained heavily all night and flooded the street'') (1/2)]"
  note t = retrieve_relevant_context_sorted_bounded[OF retrieve_env0_two]
  have e: "encode env0 (cps ''is it raining'') = Inr []" by (simp add: env0_def)
  have n: "near_vector env0 v initial_limit = Inr store0" for v by (simp add: env0_def)
  from t[THEN conjunct1] obtain v objects where
    "near_vector env0 v initial_limit = Inr objects"
    and r: "?res = py_slice_to 2 (sort_key distance
              (filter (passes_filter (embedding_field env0) (cps ''is it raining'') (3/4))
                 objects))"
    by (elim exE conjE)
  with n[of v] have "objects = store0" by simp
  with r have 0: "?res = py_slice_to 2 (sort_key distance
              (filter (passes_filter (embedding_field env0) (cps ''is it raining'') (3/4))
                 store0))"
    by simp
  have 1: "sorted (map distance ?res)" by (rule t[THEN conjunct2, THEN conjunct1])
  have 2: "list_all (\<lambda>d. distance d \<le> 3/4) ?res"
    using t[THEN conjunct2, THEN conjunct2, THEN conjunct1] by (simp only: list_all_iff)
  have 3: "(0::int) \<le> 2" by simp
  have 4: "int (length ?res) \<le> 2"
    using t[THEN conjunct2, THEN conjunct2, THEN conjunct2] 3 by (rule mp)
  from retrieve_env0_two e n[of "[]"] 0 1 2 3 4 show ?thesis by (intro conjI)
qed
section \<open>The prompt builder\<close>

lemma collect_properties_Inr:
  "collect_properties field ds = Inr cs \<Longrightarrow> map (\<lambda>d. properties d field) ds = map Some cs"
  by (induction ds arbitrary: cs)
     (auto simp: get_property_def split: option.splits sum.splits)

lemma sublist_py_join: "c \<in> set cs \<Longrightarrow> sublist c (py_join sep cs)"
proof (induction sep cs rule: py_join.induct)
  case (3 sep x y ys)
  show ?case
  proof (cases "c = x")
    case True
    then show ?thesis by simp
  next
    case False
    with 3 have "sublist c (py_join sep (y # ys))" by simp
    then have "sublist c ((x @ sep) @ py_join sep (y # ys))"
      by (rule sublist_order.order_trans) (rule sublist_append_leftI)
    then show ?thesis by simp
  qed
qed simp_all

lemma generate_prompt_Inr:
  assumes "generate_prompt env qry context = Inr prompt"
  obtains contents where
    "collect_properties (embedding_field env) (sort_key distance context) = Inr contents"
    "prompt = prompt_header @ py_join (cps ''\<newline>\<newline>'') contents @ prompt_question @ qry @ prompt_footer"
  using assms unfolding generate_prompt_def Let_def by (auto split: sum.splits)

lemma sublist_middle: "sublist c m \<Longrightarrow> sublist c (a @ m @ b)"
  by (metis sublist_appendI sublist_order.order_trans)

text \<open>The builder returns a prompt whenever every message carries the content field, as the
  messages that the retriever returns do.\<close>

lemma collect_properties_returns:
  "\<forall>d\<in>set ds. properties d field \<noteq> None \<Longrightarrow> \<exists>cs. collect_properties field ds = Inr cs"
  by (induction ds) (auto simp: get_property_def)

lemma generate_prompt_returns:
  assumes "\<forall>d\<in>set context. properties d (embedding_field env) \<noteq> None"
  shows "\<exists>prompt. generate_prompt env qry context = Inr prompt"
proof -
  from assms have "\<forall>d\<in>set (sort_key distance context). properties d (embedding_field env) \<noteq> None"
    by simp
  from collect_properties_returns[OF this] show ?thesis
    by (auto simp: generate_prompt_def Let_def)
qed

lemma prompt_for_retrieved:
  assumes "retrieve_relevant_context env qry limit thr = Inr res"
  shows "\<exists>prompt. generate_prompt env qry res = Inr prompt"
  using retrieved_have_content[OF assms] by (rule generate_prompt_returns)

lemma generate_prompt_unsorted:
  "generate_prompt env0 (cps ''is it raining'') ctx_unsorted
   = Inr (prompt_header @ (cps ''the street flooded\<newline>\<newline>it rained all night'')
          @ prompt_question @ (cps ''is it raining'') @ prompt_footer)"
  by (simp add: generate_prompt_def env0_def ctx_unsorted_def doc_of_def get_property_def cps_def)

lemma generate_prompt_sorted:
  "generate_prompt env0 (cps ''is it raining'') ctx_sorted
   = Inr (prompt_header @ (cps ''the street flooded\<newline>\<newline>it rained all night'')
          @ prompt_question @ (cps ''is it raining'') @ prompt_footer)"
  by (simp add: generate_prompt_def env0_def ctx_sorted_def doc_of_def get_property_def cps_def)

text \<open>
  C8: the prompt that the builder returns contains the query and the content of every
  message of the context; between the fixed header and the question it carries the contents
  of the messages in ascending order of distance, joined by a blank line; for a context
  that is already sorted by distance the contents appear in the order of the input.
\<close>

theorem generate_prompt_contents:
  assumes "generate_prompt env qry context = Inr prompt"
  shows "sublist qry prompt
    \<and> (\<forall>d\<in>set context. \<exists>c. properties d (embedding_field env) = Some c \<and> sublist c prompt)
    \<and> (\<exists>docs contents. mset docs = mset context \<and> sorted (map distance docs)
          \<and> map (\<lambda>d. properties d (embedding_field env)) docs = map Some contents
          \<and> prompt = prompt_header @ py_join (cps ''\<newline>\<newline>'') contents
                        @ prompt_question @ qry @ prompt_footer)
    \<and> (sorted (map distance context) \<longrightarrow>
         (\<exists>contents. map (\<lambda>d. properties d (embedding_field env)) context = map Some contents
          \<and> prompt = prompt_header @ py_join (cps ''\<newline>\<newline>'') contents
                        @ prompt_question @ qry @ prompt_footer))"
proof -
  from assms obtain contents where
    c: "collect_properties (embedding_field env) (sort_key distance context) = Inr contents"
    and p: "prompt = prompt_header @ py_join (cps ''\<newline>\<newline>'') contents @ prompt_question @ qry @ prompt_footer"
    by (rule generate_prompt_Inr)
  let ?f = "\<lambda>d. properties d (embedding_field env)"
  from c have m: "map ?f (sort_key distance context) = map Some contents"
    by (rule collect_properties_Inr)
  have 1: "sublist qry prompt"
  proof -
    have "prompt = (prompt_header @ py_join (cps ''\<newline>\<newline>'') contents @ prompt_question) @ qry @ prompt_footer"
      unfolding p by simp
    then show ?thesis by (metis sublist_appendI)
  qed
  have 2: "\<exists>c. ?f d = Some c \<and> sublist c prompt" if "d \<in> set context" for d
  proof -
    from that have "?f d \<in> set (map ?f (sort_key distance context))" by simp
    with m obtain c where "?f d = Some c" "c \<in> set contents" by auto
    moreover from this have "sublist c (py_join (cps ''\<newline>\<newline>'') contents)" by (simp add: sublist_py_join)
    then have "sublist c prompt" unfolding p
      using sublist_middle[of c "py_join (cps ''\<newline>\<newline>'') contents" prompt_header "prompt_question @ qry @ prompt_footer"]
      by simp
    ultimately show ?thesis by blast
  qed
  have 3: "\<exists>docs contents. mset docs = mset context \<and> sorted (map distance docs)
          \<and> map ?f docs = map Some contents
          \<and> prompt = prompt_header @ py_join (cps ''\<newline>\<newline>'') contents
                        @ prompt_question @ qry @ prompt_footer"
    using m p by (intro exI[of _ "sort_key distance context"] exI[of _ contents]) simp
  have 4: "\<exists>contents. map ?f context = map Some contents
          \<and> prompt = prompt_header @ py_join (cps ''\<newline>\<newline>'') contents
                        @ prompt_question @ qry @ prompt_footer"
    if "sorted (map distance context)"
    using m p sort_key_id_if_sorted[OF that] by auto
  from 1 2 3 4 show ?thesis by blast
qed

text \<open>Two messages given farthest first, and the same two given nearest first.\<close>

theorem generate_prompt_contents_witness:
  "(generate_prompt env0 (cps ''is it raining'') ctx_unsorted
      = Inr (prompt_header @ (cps ''the street flooded\<newline>\<newline>it rained all night'')
             @ prompt_question @ (cps ''is it raining'') @ prompt_footer)
    \<and> sublist (cps ''is it raining'')
         (prompt_header @ (cps ''the street flooded\<newline>\<newline>it rained all night'')
          @ prompt_question @ (cps ''is it raining'') @ prompt_footer))
   \<and> (generate_prompt env0 (cps ''is it raining'') ctx_sorted
      = Inr (prompt_header @ (cps ''the street flooded\<newline>\<newline>it rained all night'')
             @ prompt_question @ (cps ''is it raining'') @ prompt_footer)
    \<and> sorted (map distance ctx_sorted)
    \<and> (\<exists>contents. map (\<lambda>d. properties d (embedding_field env0)) ctx_sorted = map Some contents
          \<and> prompt_header @ (cps ''the street flooded\<newline>\<newline>it rained all night'')
               @ prompt_question @ (cps ''is it raining'') @ prompt_footer
             = prompt_header @ py_join (cps ''\<newline>\<newline>'') contents
               @ prompt_question @ (cps ''is it raining'') @ prompt_footer))"
proof -
  have s: "sorted (map distance ctx_sorted)"
    by (simp add: ctx_sorted_def doc_of_def)
  from generate_prompt_contents[OF generate_prompt_unsorted]
       generate_prompt_contents[OF generate_prompt_sorted] s
       generate_prompt_unsorted generate_prompt_sorted
  show ?thesis by blast
qed
section \<open>The pipeline\<close>

text \<open>
  C3: when retrieval returns the empty list, \<open>query\<close> returns the fixed message and the
  completion client is not called: the list of completion calls is what it was.
\<close>

theorem query_empty_retrieval:
  assumes "retrieve_relevant_context env user_query default_limit default_distance_threshold
             = Inr []"
  shows "fst (query env user_query s) = Inr no_information_message
    \<and> completion_calls (snd (query env user_query s)) = completion_calls s"
  using assms by (simp add: query_def query_try_def close_client_def)

text \<open>A store whose two candidates are both filtered out.\<close>

theorem query_empty_retrieval_witness:
  "retrieve_relevant_context env_sparse (cps ''is it raining'') default_limit
       default_distance_threshold = Inr []
   \<and> fst (query env_sparse (cps ''is it raining'')
            \<lparr>client_open = True, stdout = [], completion_calls = []\<rparr>)
       = Inr no_information_message
   \<and> completion_calls (snd (query env_sparse (cps ''is it raining'')
            \<lparr>client_open = True, stdout = [], completion_calls = []\<rparr>)) = []"
  using query_empty_retrieval[OF retrieve_env_sparse,
          of "\<lparr>client_open = True, stdout = [], completion_calls = []\<rparr>"]
        retrieve_env_sparse
  by simp

text \<open>The exits of \<open>query\<close>: a failure of retrieval, the fixed message, a failure of the
  prompt builder, and whatever the completion client raises or returns.\<close>

lemma query_try_exits:
  "(\<exists>e. retrieve_relevant_context env user_query default_limit default_distance_threshold = Inl e
        \<and> query_try env user_query s = (Inl e, s))
   \<or> (retrieve_relevant_context env user_query default_limit default_distance_threshold = Inr []
        \<and> query_try env user_query s = (Inr no_information_message, s))
   \<or> (\<exists>docs e. retrieve_relevant_context env user_query default_limit default_distance_threshold
          = Inr docs \<and> docs \<noteq> [] \<and> generate_prompt env user_query docs = Inl e
        \<and> query_try env user_query s = (Inl e, s))
   \<or> (\<exists>docs prompt. retrieve_relevant_context env user_query default_limit
          default_distance_threshold = Inr docs \<and> docs \<noteq> []
        \<and> generate_prompt env user_query docs = Inr prompt
        \<and> query_try env user_query s
            = (complete env prompt,
               s\<lparr>stdout := stdout s @ [(cps ''Prompt '') @ prompt],
                  completion_calls := completion_calls s @ [prompt]\<rparr>))"
  by (cases "retrieve_relevant_context env user_query default_limit default_distance_threshold")
     (auto simp: query_try_def get_completion_def split: sum.splits)

text \<open>A completion service that fails: the failure reaches the caller, after one call of
  the service, and the connection is closed.\<close>

lemma retrieve_env_failing:
  "retrieve_relevant_context env_failing (cps ''is it raining'') default_limit
     default_distance_threshold
   = Inr [doc_of (cps ''the river rose over the bridge before dawn today'') (1/5),
          doc_of (cps ''it rained heavily all night and flooded the street'') (1/2)]"
  by (simp add: retrieve_relevant_context_def env_failing_def env0_def store0_def
        get_property_def doc_of_def py_slice_to_def default_limit_def default_distance_threshold_def
        informative_rain informative_river uninformative_yes)

lemma env_failing_fields:
  "embedding_field env_failing = ''content''" "complete env_failing p = Inl CompletionError"
  by (simp_all add: env_failing_def env0_def)

lemma query_completion_failure:
  "fst (query env_failing (cps ''is it raining'')
          \<lparr>client_open = True, stdout = [], completion_calls = []\<rparr>) = Inl CompletionError
   \<and> \<not> client_open (snd (query env_failing (cps ''is it raining'')
          \<lparr>client_open = True, stdout = [], completion_calls = []\<rparr>))
   \<and> length (completion_calls (snd (query env_failing (cps ''is it raining'')
          \<lparr>client_open = True, stdout = [], completion_calls = []\<rparr>))) = 1"
  by (simp add: query_def query_try_def retrieve_env_failing generate_prompt_def
        get_completion_def close_client_def doc_of_def get_property_def env_failing_fields
        split: prod.splits)

text \<open>
  C9: on every exit of \<open>query\<close> (the fixed message, an answer, or a failure propagated from
  retrieval, prompt building or completion) the connection to the vector store is closed.
\<close>

theorem query_closes_client:
  "\<not> client_open (snd (query env user_query s))
   \<and> fst (query env user_query s) = fst (query_try env user_query s)"
  by (simp add: query_def close_client_def split: prod.splits)
section \<open>The message parser\<close>

text \<open>The matcher finds exactly the splits of a string into a word of the expression and
  a remainder.\<close>

lemma all_take_iff:
  "k \<le> length s \<Longrightarrow> list_all P (take k s) \<longleftrightarrow> k \<le> length (takeWhile P s)"
proof (induction s arbitrary: k)
  case Nil
  then show ?case by simp
next
  case (Cons c cs)
  then show ?case by (cases k) auto
qed

lemma rep_class_set:
  "set (rep_class lo hi P s) =
     (\<lambda>k. drop k s) ` {k. lo \<le> k \<and> k \<le> length (takeWhile P s)
                                \<and> (case hi of None \<Rightarrow> True | Some h \<Rightarrow> k \<le> h)}"
proof -
  have "{lo..<Suc (case hi of None \<Rightarrow> length (takeWhile P s)
                           | Some h \<Rightarrow> min h (length (takeWhile P s)))}
        = {k. lo \<le> k \<and> k \<le> length (takeWhile P s)
                \<and> (case hi of None \<Rightarrow> True | Some h \<Rightarrow> k \<le> h)}"
    by (auto split: option.splits)
  then show ?thesis by (simp only: rep_class_def Let_def set_map set_rev set_upt)
qed

lemma rep_class_iff:
  "r \<in> set (rep_class lo hi P s) \<longleftrightarrow> (\<exists>w. w \<in> lang (Rep lo hi P) \<and> s = w @ r)"
proof
  assume "r \<in> set (rep_class lo hi P s)"
  then obtain k where k: "lo \<le> k" "k \<le> length (takeWhile P s)"
      "case hi of None \<Rightarrow> True | Some h \<Rightarrow> k \<le> h" and r: "r = drop k s"
    unfolding rep_class_set by blast
  have kl: "k \<le> length s" using k(2) length_takeWhile_le[of P s] by linarith
  with k(2) have "list_all P (take k s)" by (simp add: all_take_iff)
  with k kl have "take k s \<in> lang (Rep lo hi P)" by (auto split: option.splits)
  moreover have "s = take k s @ r" unfolding r by simp
  ultimately show "\<exists>w. w \<in> lang (Rep lo hi P) \<and> s = w @ r" by blast
next
  assume "\<exists>w. w \<in> lang (Rep lo hi P) \<and> s = w @ r"
  then obtain w where w: "lo \<le> length w" "case hi of None \<Rightarrow> True | Some h \<Rightarrow> length w \<le> h"
      "list_all P w" and s: "s = w @ r"
    by auto
  have "list_all P (take (length w) s)" "length w \<le> length s" using w(3) s by simp_all
  then have "length w \<le> length (takeWhile P s)" using all_take_iff[of "length w" s P] by blast
  moreover have "r = drop (length w) s" using s by simp
  ultimately show "r \<in> set (rep_class lo hi P s)"
    unfolding rep_class_set using w(1,2) by blast
qed

lemma rx_match_iff: "r \<in> set (rx_match x s) \<longleftrightarrow> (\<exists>w. w \<in> lang x \<and> s = w @ r)"
proof (induction x arbitrary: s r)
  case Eps
  then show ?case by auto
next
  case (Cls P)
  then show ?case by (cases s) auto
next
  case (Seq a b)
  show ?case
  proof
    assume "r \<in> set (rx_match (Seq a b) s)"
    then obtain m where "m \<in> set (rx_match a s)" "r \<in> set (rx_match b m)" by auto
    with Seq obtain u v where "u \<in> lang a" "s = u @ m" "v \<in> lang b" "m = v @ r" by blast
    then have "u @ v \<in> lang (Seq a b)" "s = (u @ v) @ r" by auto
    then show "\<exists>w. w \<in> lang (Seq a b) \<and> s = w @ r" by blast
  next
    assume "\<exists>w. w \<in> lang (Seq a b) \<and> s = w @ r"
    then obtain u v where "u \<in> lang a" "v \<in> lang b" "s = u @ (v @ r)" by auto
    with Seq have "v @ r \<in> set (rx_match a s)" "r \<in> set (rx_match b (v @ r))" by blast+
    then show "r \<in> set (rx_match (Seq a b) s)" by auto
  qed
next
  case (Alt a b)
  then show ?case by auto
next
  case (Rep lo hi P)
  then show ?case using rep_class_iff by simp
qed

lemma capture_iff:
  "(g, r) \<in> set (capture x s) \<longleftrightarrow> g \<in> lang x \<and> s = g @ r"
proof
  assume "(g, r) \<in> set (capture x s)"
  then have r: "r \<in> set (rx_match x s)" and g: "g = take (length s - length r) s"
    by (auto simp: capture_def)
  from r obtain w where "w \<in> lang x" "s = w @ r" unfolding rx_match_iff by blast
  with g show "g \<in> lang x \<and> s = g @ r" by simp
next
  assume a: "g \<in> lang x \<and> s = g @ r"
  then have "r \<in> set (rx_match x s)" unfolding rx_match_iff by blast
  moreover have "g = take (length s - length r) s" using a by simp
  ultimately show "(g, r) \<in> set (capture x s)" unfolding capture_def by (simp add: image_iff)
qed

lemma pattern_matches_iff:
  "(date, time, s, c) \<in> set (pattern_matches line) \<longleftrightarrow>
     (\<exists>p1 p2 p3 rest. date \<in> lang date_rx \<and> p1 \<in> lang sep_comma_rx \<and> time \<in> lang time_rx
        \<and> p2 \<in> lang sep_dash_rx \<and> s \<in> lang sender_rx \<and> p3 \<in> lang sep_colon_rx
        \<and> c \<in> lang content_rx
        \<and> line = date @ p1 @ time @ p2 @ s @ p3 @ c @ rest)"
  unfolding pattern_matches_def
  apply (simp add: Bex_def capture_iff rx_match_iff)
  apply (rule iffI)
   apply (elim exE conjE)
   apply (clarsimp simp: capture_iff)
   apply blast
  apply (elim exE conjE)
  apply (rule exI[of _ date], rule conjI, assumption)
  apply (intro exI conjI)
             apply (assumption | rule refl)+
  apply (simp add: image_iff Bex_def capture_iff)
  done




lemma re_match_Some_mem:
  "re_match line = Some g \<Longrightarrow> g \<in> set (pattern_matches line)"
  by (cases "pattern_matches line") (simp_all add: re_match_def)

lemma lang_Seq_Cls: "lang (Seq (Cls P) b) = {c # v | c v. P c \<and> v \<in> lang b}"
proof (intro set_eqI iffI)
  fix w assume "w \<in> lang (Seq (Cls P) b)"
  then obtain u v where "u \<in> lang (Cls P)" "v \<in> lang b" "w = u @ v" by auto
  moreover from this obtain c where "u = [c]" "P c" by auto
  ultimately show "w \<in> {c # v | c v. P c \<and> v \<in> lang b}" by simp
next
  fix w assume "w \<in> {c # v | c v. P c \<and> v \<in> lang b}"
  then obtain c v where w: "w = [c] @ v" and "P c" and v: "v \<in> lang b" by auto
  then have "[c] \<in> lang (Cls P)" by simp
  with v w have "\<exists>u v'. w = u @ v' \<and> u \<in> lang (Cls P) \<and> v' \<in> lang b" by blast
  then show "w \<in> lang (Seq (Cls P) b)" by (simp only: lang.simps mem_Collect_eq)
qed

lemma lang_Cls: "lang (Cls P) = {[c] | c. P c}"
  by simp

lemma lang_seps:
  "lang sep_comma_rx = {[CHR '','', w] | w. isspace_char w}"
  "lang sep_dash_rx = {[w, CHR ''-'', w'] | w w'. isspace_char w \<and> isspace_char w'}"
  "lang sep_colon_rx = {[CHR '':'', w] | w. isspace_char w}"
proof -
  show "lang sep_comma_rx = {[CHR '','', w] | w. isspace_char w}"
    unfolding sep_comma_rx_def chr_def lang_Seq_Cls lang_Cls by blast
  show "lang sep_colon_rx = {[CHR '':'', w] | w. isspace_char w}"
    unfolding sep_colon_rx_def chr_def lang_Seq_Cls lang_Cls by blast
  show "lang sep_dash_rx = {[w, CHR ''-'', w'] | w w'. isspace_char w \<and> isspace_char w'}"
    unfolding sep_dash_rx_def chr_def lang_Seq_Cls lang_Cls by blast
qed

lemma lang_sender_content:
  "lang sender_rx = {w. w \<noteq> [] \<and> CHR '':'' \<notin> set w}"
  "lang content_rx = {w. w \<noteq> [] \<and> CHR ''\<newline>'' \<notin> set w}"
  by (auto simp: sender_rx_def content_rx_def list_all_iff Suc_le_eq)

lemma re_match_shape:
  assumes "re_match line = Some (date, time, s, c)"
  shows "\<exists>w1 w2 w3 w4 rest.
           line = date @ [CHR '','', w1] @ time @ [w2, CHR ''-'', w3] @ s @ [CHR '':'', w4] @ c @ rest
           \<and> isspace_char w1 \<and> isspace_char w2 \<and> isspace_char w3 \<and> isspace_char w4
           \<and> date \<in> lang date_rx \<and> time \<in> lang time_rx
           \<and> s \<noteq> [] \<and> CHR '':'' \<notin> set s \<and> c \<noteq> [] \<and> CHR ''\<newline>'' \<notin> set c"
proof -
  from re_match_Some_mem[OF assms] obtain p1 p2 p3 rest where
    "date \<in> lang date_rx" "p1 \<in> lang sep_comma_rx" "time \<in> lang time_rx"
    "p2 \<in> lang sep_dash_rx" "s \<in> lang sender_rx" "p3 \<in> lang sep_colon_rx"
    "c \<in> lang content_rx" "line = date @ p1 @ time @ p2 @ s @ p3 @ c @ rest"
    unfolding pattern_matches_iff by blast
  note m = this
  from m(2) obtain w1 where p1: "p1 = [CHR '','', w1]" "isspace_char w1"
    unfolding lang_seps by blast
  from m(4) obtain w2 w3 where p2: "p2 = [w2, CHR ''-'', w3]" "isspace_char w2" "isspace_char w3"
    unfolding lang_seps by blast
  from m(6) obtain w4 where p3: "p3 = [CHR '':'', w4]" "isspace_char w4"
    unfolding lang_seps by blast
  from m(5) have s: "s \<noteq> []" "CHR '':'' \<notin> set s" unfolding lang_sender_content by simp_all
  from m(7) have c: "c \<noteq> []" "CHR ''\<newline>'' \<notin> set c" unfolding lang_sender_content by simp_all
  have l: "line = date @ [CHR '','', w1] @ time @ [w2, CHR ''-'', w3] @ s @ [CHR '':'', w4] @ c @ rest"
    unfolding m(8) p1(1) p2(1) p3(1) by (rule refl)
  show ?thesis
    apply (rule exI[of _ w1], rule exI[of _ w2], rule exI[of _ w3], rule exI[of _ w4],
           rule exI[of _ rest])
    using l p1(2) p2(2,3) p3(2) m(1) m(3) s c by (intro conjI)
qed

text \<open>The fields that the format of \<open>strptime\<close> accepts, as numbers.\<close>

lemma lang_chr: "lang (chr c) = {[c]}"
  by (simp add: chr_def)


























end
